theory Spec2Isabelle
  imports Complex_Main "HOL-Library.Log_Nat"
begin

section \<open>The star field of CosmicQuery\<close>

text \<open>
  The component under study is \<^verbatim>\<open>src/components/StarField.jsx\<close>: the memoised
  generator \<^verbatim>\<open>starPositions\<close> of the \<^verbatim>\<open>Stars\<close> component, the callback it
  registers with \<^verbatim>\<open>useFrame\<close>, the \<^verbatim>\<open>bufferAttribute\<close> it renders, and the camera
  that \<^verbatim>\<open>StarField\<close> hands to the canvas.

  JavaScript numbers are IEEE 754 binary64 values, and a \<^verbatim>\<open>Float32Array\<close> element is a
  binary32 value. Both are modelled exactly: a finite number is the rational it
  denotes, and every arithmetic operation rounds its exact result to the nearest
  representable value, ties to even. Infinities and NaN are not represented; the
  lemmas \<open>axis_value_bounds\<close>, \<open>stored_bounds\<close> and \<open>drift_literal_bounded\<close> below
  show that every number the component computes stays at most \<open>2 ^ 53\<close> in
  magnitude, far from overflow.
\<close>

subsection \<open>Rounding to a binary floating-point format\<close>

text \<open>Round to the nearest integer, ties to the even one.\<close>

definition rne :: "rat \<Rightarrow> int" where
  "rne x = (let f = \<lfloor>x\<rfloor>; r = x - of_int f in
     if r < 1 / 2 then f else if 1 / 2 < r then f + 1 else if even f then f else f + 1)"

text \<open>The exponent of the leading binary digit of a positive rational.\<close>

definition ilog2 :: "rat \<Rightarrow> int" where
  "ilog2 x = (if 1 \<le> x then bitlen \<lfloor>x\<rfloor> - 1 else - bitlen (\<lceil>1 / x\<rceil> - 1))"

text \<open>
  The exponent of the unit in the last place of \<open>x\<close> in a format with \<open>p\<close> digits of
  precision whose smallest subnormal is \<open>2 powi emin\<close>.
\<close>

definition ulp_exp :: "nat \<Rightarrow> int \<Rightarrow> rat \<Rightarrow> int" where
  "ulp_exp p emin x = max emin (ilog2 \<bar>x\<bar> - (int p - 1))"

definition round_to :: "nat \<Rightarrow> int \<Rightarrow> rat \<Rightarrow> rat" where
  "round_to p emin x =
     (if x = 0 then 0
      else of_int (rne (x / 2 powi ulp_exp p emin x)) * 2 powi ulp_exp p emin x)"

text \<open>binary64: 53 digits, smallest subnormal \<open>2 powi - 1074\<close>.\<close>

definition fl64 :: "rat \<Rightarrow> rat" where
  "fl64 = round_to 53 (- 1074)"

text \<open>
  binary32: 24 digits, smallest subnormal \<open>2 powi - 149\<close>. This is \<^verbatim>\<open>Math.fround\<close>,
  the conversion a \<^verbatim>\<open>Float32Array\<close> applies to every value written into it.
\<close>

definition fround :: "rat \<Rightarrow> rat" where
  "fround = round_to 24 (- 149)"

text \<open>A numeric literal of the source denotes the number nearest to its decimal value.\<close>

definition lit :: "rat \<Rightarrow> rat" where
  "lit v = fl64 v"

definition num_add :: "rat \<Rightarrow> rat \<Rightarrow> rat" where
  "num_add a b = fl64 (a + b)"

definition num_sub :: "rat \<Rightarrow> rat \<Rightarrow> rat" where
  "num_sub a b = fl64 (a - b)"

definition num_mul :: "rat \<Rightarrow> rat \<Rightarrow> rat" where
  "num_mul a b = fl64 (a * b)"

definition num_div :: "rat \<Rightarrow> rat \<Rightarrow> rat" where
  "num_div a b = fl64 (a / b)"

subsection \<open>The generator \<^verbatim>\<open>starPositions\<close>\<close>

text \<open>
  \<^verbatim>\<open>Math.random\<close> is a stateful source of numbers. The model is given the sequence
  \<open>rnd\<close> of the results of its successive calls and threads the number \<open>c\<close> of calls
  made so far. A sequence is valid when every result is a number in \<open>[0, 1)\<close>, as
  the language standard promises.
\<close>

definition Math_random :: "(nat \<Rightarrow> rat) \<Rightarrow> nat \<Rightarrow> rat \<times> nat" where
  "Math_random rnd c = (rnd c, Suc c)"

definition valid_draws :: "(nat \<Rightarrow> rat) \<Rightarrow> bool" where
  "valid_draws rnd \<longleftrightarrow> (\<forall>i. 0 \<le> rnd i \<and> rnd i < 1 \<and> fl64 (rnd i) = rnd i)"

text \<open>The expression \<^verbatim>\<open>(Math.random() - 0.5) * 2000\<close>, for the draw \<open>u\<close>.\<close>

definition axis_value :: "rat \<Rightarrow> rat" where
  "axis_value u = num_mul (num_sub u (lit (1 / 2))) (lit 2000)"

text \<open>
  The assignment \<^verbatim>\<open>positions[i] = v\<close> on a \<^verbatim>\<open>Float32Array\<close>: the value is converted
  to binary32, and an index beyond the length is ignored.
\<close>

definition store :: "rat list \<Rightarrow> nat \<Rightarrow> rat \<Rightarrow> rat list" where
  "store a i v = a[i := fround v]"

definition loop_body :: "(nat \<Rightarrow> rat) \<Rightarrow> nat \<Rightarrow> rat list \<times> nat \<Rightarrow> rat list \<times> nat" where
  "loop_body rnd i st =
     (let (positions, c) = st;
          (u0, c) = Math_random rnd c;
          positions = store positions (i * 3) (axis_value u0);
          (u1, c) = Math_random rnd c;
          positions = store positions (i * 3 + 1) (axis_value u1);
          (u2, c) = Math_random rnd c;
          positions = store positions (i * 3 + 2) (axis_value u2)
      in (positions, c))"

text \<open>The loop \<^verbatim>\<open>for (let i = 0; i < n; i++)\<close>, entered at \<open>i\<close>.\<close>

function for_loop ::
  "nat \<Rightarrow> (nat \<Rightarrow> rat) \<Rightarrow> nat \<Rightarrow> rat list \<times> nat \<Rightarrow> rat list \<times> nat" where
  "for_loop n rnd i st = (if i < n then for_loop n rnd (Suc i) (loop_body rnd i st) else st)"
  by pat_completeness auto
termination
  by (relation "measure (\<lambda>(n, rnd, i, st). n - i)") auto

text \<open>
  The body of the memoised function, with the star count as the parameter \<open>n\<close>:
  a zero-filled \<^verbatim>\<open>Float32Array\<close> of \<open>n * 3\<close> elements, then the loop. The source
  fixes the count: \<^verbatim>\<open>starPositions\<close> is the instance for 10000 stars.
\<close>

definition generate :: "nat \<Rightarrow> (nat \<Rightarrow> rat) \<Rightarrow> rat list" where
  "generate n rnd = fst (for_loop n rnd 0 (replicate (n * 3) 0, 0))"

definition starPositions :: "(nat \<Rightarrow> rat) \<Rightarrow> rat list" where
  "starPositions rnd = generate 10000 rnd"

subsection \<open>The scene and the frame callback\<close>

datatype error = TypeError | RangeError

record euler =
  rot_x :: rat
  rot_y :: rat
  rot_z :: rat

record buffer_attribute =
  array :: "rat list"
  count :: rat
  itemSize :: rat

record points =
  rotation :: euler
  attributes_position :: buffer_attribute

record camera_props =
  position :: "rat list"
  fov :: rat

text \<open>
  What the component can reach: the object behind \<^verbatim>\<open>starsRef.current\<close> (absent
  before the points object is attached and after it is detached) and the camera
  of the canvas.
\<close>

record scene =
  starsRef_current :: "points option"
  camera :: camera_props

definition truthy :: "points option \<Rightarrow> bool" where
  "truthy r = (case r of None \<Rightarrow> False | Some obj \<Rightarrow> True)"

text \<open>
  The statement \<^verbatim>\<open>starsRef.current.rotation.y += d\<close>. Reading a property of an
  absent object throws a \<^verbatim>\<open>TypeError\<close>.
\<close>

definition add_rotation_y :: "rat \<Rightarrow> scene \<Rightarrow> error + scene" where
  "add_rotation_y d s =
     (case starsRef_current s of
        None \<Rightarrow> Inl TypeError
      | Some obj \<Rightarrow>
          Inr (s\<lparr>starsRef_current :=
            Some (obj\<lparr>rotation := (rotation obj)\<lparr>rot_y := num_add (rot_y (rotation obj)) d\<rparr>\<rparr>)\<rparr>))"

definition add_rotation_x :: "rat \<Rightarrow> scene \<Rightarrow> error + scene" where
  "add_rotation_x d s =
     (case starsRef_current s of
        None \<Rightarrow> Inl TypeError
      | Some obj \<Rightarrow>
          Inr (s\<lparr>starsRef_current :=
            Some (obj\<lparr>rotation := (rotation obj)\<lparr>rot_x := num_add (rot_x (rotation obj)) d\<rparr>\<rparr>)\<rparr>))"

definition useFrame_callback :: "scene \<Rightarrow> error + scene" where
  "useFrame_callback s =
     (if truthy (starsRef_current s) then
        (case add_rotation_y (lit (2 / 10000)) s of
           Inl e \<Rightarrow> Inl e
         | Inr s' \<Rightarrow> add_rotation_x (lit (1 / 10000)) s')
      else Inr s)"

text \<open>The callback invoked \<open>k\<close> times in a row; an exception ends the run.\<close>

fun frames :: "nat \<Rightarrow> scene \<Rightarrow> error + scene" where
  "frames 0 s = Inr s"
| "frames (Suc k) s = (case useFrame_callback s of Inl e \<Rightarrow> Inl e | Inr s' \<Rightarrow> frames k s')"

text \<open>
  The element \<^verbatim>\<open>bufferAttribute\<close> with \<^verbatim>\<open>count={starPositions.length / 3}\<close> and
  \<^verbatim>\<open>itemSize={3}\<close>.
\<close>

definition bufferAttribute :: "rat list \<Rightarrow> buffer_attribute" where
  "bufferAttribute a =
     \<lparr>array = a, count = num_div (of_nat (length a)) (lit 3), itemSize = lit 3\<rparr>"

text \<open>
  The mounted component: a new points object has the rotation \<open>(0, 0, 0)\<close>, its
  position attribute holds the generated array, and the camera has the properties
  \<^verbatim>\<open>{ position: [0, 0, 5], fov: 75 }\<close>.
\<close>

definition Stars :: "(nat \<Rightarrow> rat) \<Rightarrow> points" where
  "Stars rnd = \<lparr>rotation = \<lparr>rot_x = 0, rot_y = 0, rot_z = 0\<rparr>,
     attributes_position = bufferAttribute (starPositions rnd)\<rparr>"

definition StarField :: "(nat \<Rightarrow> rat) \<Rightarrow> scene" where
  "StarField rnd = \<lparr>starsRef_current = Some (Stars rnd),
     camera = \<lparr>position = [0, 0, 5], fov = 75\<rparr>\<rparr>"

text \<open>The scene once the points object is detached (the reference is cleared).\<close>

definition detach :: "scene \<Rightarrow> scene" where
  "detach s = s\<lparr>starsRef_current := None\<rparr>"

subsection \<open>The generator with its constants as parameters\<close>

text \<open>
  The source fixes the star count (the literal 10000, twice) and the width of the
  cube (the literal 2000, three times). The generator below is the same memoised
  function with the count \<open>N\<close> and the half-extent \<open>E\<close> as parameters, and with the
  one operation of its body that can throw: the constructor
  \<^verbatim>\<open>new Float32Array(len)\<close> throws a \<^verbatim>\<open>RangeError\<close> unless \<open>len\<close> is an index, an
  integer from 0 to \<open>2 ^ 53 - 1\<close>, and returns a zero-filled array of that length
  otherwise. Running out of memory is not modelled.
\<close>

definition Float32Array_new :: "int \<Rightarrow> error + rat list" where
  "Float32Array_new len =
     (if 0 \<le> len \<and> len \<le> 2 ^ 53 - 1 then Inr (replicate (nat len) 0) else Inl RangeError)"

text \<open>The expression \<^verbatim>\<open>(Math.random() - 0.5) * 2 * E\<close>, for the draw \<open>u\<close>.\<close>

definition axis_value_E :: "rat \<Rightarrow> rat \<Rightarrow> rat" where
  "axis_value_E E u = num_mul (num_mul (num_sub u (lit (1 / 2))) (lit 2)) E"

definition loop_body_E ::
  "rat \<Rightarrow> (nat \<Rightarrow> rat) \<Rightarrow> nat \<Rightarrow> rat list \<times> nat \<Rightarrow> rat list \<times> nat" where
  "loop_body_E E rnd i st =
     (let (positions, c) = st;
          (u0, c) = Math_random rnd c;
          positions = store positions (i * 3) (axis_value_E E u0);
          (u1, c) = Math_random rnd c;
          positions = store positions (i * 3 + 1) (axis_value_E E u1);
          (u2, c) = Math_random rnd c;
          positions = store positions (i * 3 + 2) (axis_value_E E u2)
      in (positions, c))"

function for_loop_E ::
  "nat \<Rightarrow> rat \<Rightarrow> (nat \<Rightarrow> rat) \<Rightarrow> nat \<Rightarrow> rat list \<times> nat \<Rightarrow> rat list \<times> nat" where
  "for_loop_E n E rnd i st =
     (if i < n then for_loop_E n E rnd (Suc i) (loop_body_E E rnd i st) else st)"
  by pat_completeness auto
termination
  by (relation "measure (\<lambda>(n, E, rnd, i, st). n - i)") auto

definition generator :: "int \<Rightarrow> rat \<Rightarrow> (nat \<Rightarrow> rat) \<Rightarrow> error + rat list" where
  "generator N E rnd =
     (case Float32Array_new (N * 3) of
        Inl e \<Rightarrow> Inl e
      | Inr positions \<Rightarrow> Inr (fst (for_loop_E (nat N) E rnd 0 (positions, 0))))"

subsection \<open>Observations and closed forms\<close>

text \<open>The angle reached from \<open>a\<close> by \<open>k\<close> additions of the increment \<open>d\<close>.\<close>

fun drift :: "rat \<Rightarrow> nat \<Rightarrow> rat \<Rightarrow> rat" where
  "drift d 0 a = a"
| "drift d (Suc k) a = drift d k (num_add a d)"

definition turned :: "nat \<Rightarrow> points \<Rightarrow> points" where
  "turned k obj = obj\<lparr>rotation := (rotation obj)
     \<lparr>rot_x := drift (lit (1 / 10000)) k (rot_x (rotation obj)),
      rot_y := drift (lit (2 / 10000)) k (rot_y (rotation obj))\<rparr>\<rparr>"

text \<open>
  The orientation of a run's result: the angle about the vertical axis
  (\<^verbatim>\<open>rotation.y\<close>) and the angle about the horizontal axis (\<^verbatim>\<open>rotation.x\<close>).
\<close>

definition orientation :: "error + scene \<Rightarrow> (rat \<times> rat) option" where
  "orientation r =
     (case r of
        Inl e \<Rightarrow> None
      | Inr s \<Rightarrow> map_option (\<lambda>obj. (rot_y (rotation obj), rot_x (rotation obj)))
          (starsRef_current s))"

definition stored_positions :: "error + scene \<Rightarrow> rat list option" where
  "stored_positions r =
     (case r of
        Inl e \<Rightarrow> None
      | Inr s \<Rightarrow> map_option (\<lambda>obj. array (attributes_position obj)) (starsRef_current s))"

text \<open>
  Two scenes that agree on everything but the angles \<^verbatim>\<open>rotation.x\<close> and
  \<^verbatim>\<open>rotation.y\<close>: the same camera, the same position attribute (array, count and
  item size), the same \<^verbatim>\<open>rotation.z\<close>, and the points object attached in both or
  in neither.
\<close>

definition only_rotation_differs :: "scene \<Rightarrow> scene \<Rightarrow> bool" where
  "only_rotation_differs s s' \<longleftrightarrow>
     camera s' = camera s \<and>
     map_option attributes_position (starsRef_current s') =
       map_option attributes_position (starsRef_current s) \<and>
     map_option (\<lambda>obj. rot_z (rotation obj)) (starsRef_current s') =
       map_option (\<lambda>obj. rot_z (rotation obj)) (starsRef_current s)"

text \<open>A source of draws that returns the same number on every call.\<close>

definition const_draws :: "rat \<Rightarrow> nat \<Rightarrow> rat" where
  "const_draws u i = u"

section \<open>Properties of rounding\<close>

subsection \<open>Rounding to an integer\<close>

lemma rne_of_int [simp]: "rne (of_int n) = n"
  by (simp add: rne_def)

lemma rne_floor: "\<lfloor>x\<rfloor> \<le> rne x" "rne x \<le> \<lfloor>x\<rfloor> + 1"
  by (simp_all add: rne_def Let_def)

lemma rne_mono:
  assumes "x \<le> y"
  shows "rne x \<le> rne y"
proof -
  consider "\<lfloor>x\<rfloor> < \<lfloor>y\<rfloor>" | "\<lfloor>x\<rfloor> = \<lfloor>y\<rfloor>"
    using floor_mono [OF assms] by linarith
  then show ?thesis
  proof cases
    case 1
    then show ?thesis using rne_floor(2) [of x] rne_floor(1) [of y] by linarith
  next
    case 2
    then show ?thesis using assms by (auto simp: rne_def Let_def)
  qed
qed

lemma rne_error: "\<bar>of_int (rne x) - x\<bar> \<le> 1/2"
proof -
  have "of_int \<lfloor>x\<rfloor> \<le> x" "x < of_int \<lfloor>x\<rfloor> + 1"
    using floor_correct [of x] by simp_all
  then show ?thesis
    by (auto simp: rne_def Let_def abs_le_iff)
qed

lemma rne_minus: "rne (- x) = - rne x"
proof (cases "x = of_int \<lfloor>x\<rfloor>")
  case True
  then obtain n where "x = of_int n" ..
  then have "- x = of_int (- n)" by simp
  then show ?thesis using \<open>x = of_int n\<close> by (metis rne_of_int)
next
  case False
  have b: "of_int \<lfloor>x\<rfloor> \<le> x" "x < of_int \<lfloor>x\<rfloor> + 1"
    using floor_correct [of x] by simp_all
  with False have "of_int \<lfloor>x\<rfloor> < x" by linarith
  with b have fl: "\<lfloor>- x\<rfloor> = - \<lfloor>x\<rfloor> - 1"
    by (intro floor_unique) simp_all
  show ?thesis
    using \<open>of_int \<lfloor>x\<rfloor> < x\<close> b
    by (auto simp: rne_def Let_def fl)
qed

subsection \<open>The leading binary digit\<close>

lemma powi_nat: "0 \<le> k \<Longrightarrow> (2::rat) powi k = 2 ^ nat k"
  by (simp add: power_int_def)

lemma powi_neg: "0 \<le> k \<Longrightarrow> (2::rat) powi (- k) = 1 / 2 ^ nat k"
  by (simp add: power_int_def field_simps)

lemma ilog2_bounds_ge1:
  assumes "1 \<le> x"
  shows "2 powi ilog2 x \<le> x \<and> x < 2 powi (ilog2 x + 1)"
proof -
  define n where "n = \<lfloor>x\<rfloor>"
  have n1: "1 \<le> n" using assms by (simp add: n_def le_floor_iff)
  then have npos: "0 < n" by simp
  have nx: "of_int n \<le> x" "x < of_int n + 1"
    using floor_correct [of x] by (simp_all add: n_def)
  have bl: "1 \<le> bitlen n"
    using npos bitlen_eq_zero_iff [of n] bitlen_nonneg [of n] by linarith
  have lo: "2 ^ nat (bitlen n - 1) \<le> n" and hi: "n < 2 ^ nat (bitlen n)"
    using bitlen_bounds [OF npos] by simp_all
  have k: "ilog2 x = bitlen n - 1" using assms by (simp add: ilog2_def n_def)
  have "(2::rat) powi (bitlen n - 1) = of_int (2 ^ nat (bitlen n - 1))"
    using bl by (simp add: powi_nat)
  also have "\<dots> \<le> of_int n" using lo by (simp only: of_int_le_iff)
  finally have a: "2 powi ilog2 x \<le> x" using nx k by simp
  have "n + 1 \<le> 2 ^ nat (bitlen n)" using hi by simp
  then have "rat_of_int (n + 1) \<le> of_int (2 ^ nat (bitlen n))" by (simp only: of_int_le_iff)
  also have "\<dots> = 2 powi (bitlen n)" using bl by (simp add: powi_nat)
  finally have "x < 2 powi (ilog2 x + 1)" using nx k by simp
  with a show ?thesis ..
qed

lemma ilog2_bounds_lt1:
  assumes "0 < x" "x < 1"
  shows "2 powi ilog2 x \<le> x \<and> x < 2 powi (ilog2 x + 1)"
proof -
  define m where "m = \<lceil>1 / x\<rceil> - 1"
  have y1: "1 < 1 / x" using assms by simp
  then have m1: "1 \<le> m" by (simp add: m_def less_ceiling_iff)
  then have mpos: "0 < m" by simp
  have my: "of_int m < 1 / x" "1 / x \<le> of_int m + 1"
    using ceiling_correct [of "1 / x"] by (simp_all add: m_def)
  have bl: "1 \<le> bitlen m"
    using mpos bitlen_eq_zero_iff [of m] bitlen_nonneg [of m] by linarith
  have lo: "2 ^ nat (bitlen m - 1) \<le> m" and hi: "m < 2 ^ nat (bitlen m)"
    using bitlen_bounds [OF mpos] by simp_all
  have k: "ilog2 x = - bitlen m" using assms by (simp add: ilog2_def m_def)
  have "m + 1 \<le> 2 ^ nat (bitlen m)" using hi by simp
  then have "rat_of_int (m + 1) \<le> of_int (2 ^ nat (bitlen m))" by (simp only: of_int_le_iff)
  then have "rat_of_int m + 1 \<le> 2 ^ nat (bitlen m)" by simp
  then have "1 / x \<le> 2 ^ nat (bitlen m)" using my by linarith
  then have "1 / 2 ^ nat (bitlen m) \<le> x"
    using assms by (simp add: field_simps)
  then have a: "2 powi ilog2 x \<le> x"
    using bl by (simp add: k powi_neg)
  have "rat_of_int (2 ^ nat (bitlen m - 1)) \<le> of_int m" using lo by (simp only: of_int_le_iff)
  then have "(2::rat) ^ nat (bitlen m - 1) \<le> of_int m" by simp
  then have "2 ^ nat (bitlen m - 1) < 1 / x" using my by linarith
  then have "x < 1 / 2 ^ nat (bitlen m - 1)"
    using assms by (simp add: field_simps)
  moreover have "(2::rat) powi (- (bitlen m - 1)) = 1 / 2 ^ nat (bitlen m - 1)"
    using bl by (intro powi_neg) simp
  ultimately have "x < 2 powi (ilog2 x + 1)" by (simp add: k)
  with a show ?thesis ..
qed

lemma ilog2_bounds:
  assumes "0 < x"
  shows "2 powi ilog2 x \<le> x" and "x < 2 powi (ilog2 x + 1)"
  using ilog2_bounds_ge1 [of x] ilog2_bounds_lt1 [of x] assms
  by (cases "1 \<le> x"; simp)+

lemma powi_less_imp_le:
  assumes "(2::rat) powi a < 2 powi (b + 1)"
  shows "a \<le> b"
proof (rule ccontr)
  assume "\<not> a \<le> b"
  then have "b + 1 \<le> a" by simp
  then have "(2::rat) powi (b + 1) \<le> 2 powi a"
    by (intro power_int_increasing) simp_all
  with assms show False by simp
qed

lemma ilog2_unique:
  assumes "2 powi k \<le> x" "x < 2 powi (k + 1)"
  shows "ilog2 x = k"
proof -
  have "0 < (2::rat) powi k" by simp
  with assms have pos: "0 < x" by linarith
  note b = ilog2_bounds [OF pos]
  have "(2::rat) powi k < 2 powi (ilog2 x + 1)" using assms(1) b(2) by linarith
  then have "k \<le> ilog2 x" by (rule powi_less_imp_le)
  moreover have "(2::rat) powi ilog2 x < 2 powi (k + 1)" using assms(2) b(1) by linarith
  then have "ilog2 x \<le> k" by (rule powi_less_imp_le)
  ultimately show ?thesis by simp
qed

lemma ilog2_mono:
  assumes "0 < x" "x \<le> y"
  shows "ilog2 x \<le> ilog2 y"
proof -
  have "0 < y" using assms by simp
  have "(2::rat) powi ilog2 x < 2 powi (ilog2 y + 1)"
    using ilog2_bounds(1) [OF assms(1)] ilog2_bounds(2) [OF \<open>0 < y\<close>] assms(2) by linarith
  then show ?thesis by (rule powi_less_imp_le)
qed

subsection \<open>Rounding is odd, monotone and fixes the representable values\<close>

lemma round_to_0 [simp]: "round_to p emin 0 = 0"
  by (simp add: round_to_def)

lemma ulp_exp_minus [simp]: "ulp_exp p emin (- x) = ulp_exp p emin x"
  by (simp add: ulp_exp_def)

lemma ulp_exp_ge: "emin \<le> ulp_exp p emin x"
  by (simp add: ulp_exp_def)

lemma ulp_exp_mono: "0 < x \<Longrightarrow> x \<le> y \<Longrightarrow> ulp_exp p emin x \<le> ulp_exp p emin y"
  using ilog2_mono [of x y] by (simp add: ulp_exp_def)

lemma round_to_minus: "round_to p emin (- x) = - round_to p emin x"
  by (simp add: round_to_def rne_minus)

lemma round_to_nonneg:
  assumes "0 \<le> x"
  shows "0 \<le> round_to p emin x"
proof -
  have "0 \<le> x / 2 powi ulp_exp p emin x" using assms by simp
  then have "rne 0 \<le> rne (x / 2 powi ulp_exp p emin x)" by (rule rne_mono)
  moreover have "rne 0 = 0" using rne_of_int [of 0] by simp
  ultimately show ?thesis by (simp add: round_to_def)
qed

lemma round_to_upper:
  assumes "0 < x"
  shows "round_to p emin x \<le> 2 powi (ulp_exp p emin x + int p)"
proof -
  define e where "e = ulp_exp p emin x"
  have "ilog2 x + 1 \<le> e + int p" using assms by (simp add: e_def ulp_exp_def)
  then have "(2::rat) powi (ilog2 x + 1) \<le> 2 powi (e + int p)"
    by (intro power_int_increasing) simp_all
  with ilog2_bounds(2) [OF assms] have "x < 2 powi (e + int p)" by linarith
  also have "\<dots> = 2 powi e * of_int (2 ^ p)" by (simp add: power_int_add)
  finally have "x / 2 powi e \<le> of_int (2 ^ p)" by (simp add: field_simps)
  then have "rne (x / 2 powi e) \<le> rne (of_int (2 ^ p))" by (rule rne_mono)
  then have "rne (x / 2 powi e) \<le> 2 ^ p" by (simp only: rne_of_int)
  then have "rat_of_int (rne (x / 2 powi e)) \<le> of_int (2 ^ p)" by (simp only: of_int_le_iff)
  then have "rat_of_int (rne (x / 2 powi e)) * 2 powi e \<le> of_int (2 ^ p) * 2 powi e"
    by (intro mult_right_mono) simp_all
  also have "\<dots> = 2 powi (e + int p)" by (simp add: power_int_add)
  finally show ?thesis using assms by (simp add: round_to_def e_def)
qed

lemma round_to_lower:
  assumes "0 < p" "0 < x" "emin < ulp_exp p emin x"
  shows "2 powi (ulp_exp p emin x + int p - 1) \<le> round_to p emin x"
proof -
  define e where "e = ulp_exp p emin x"
  define q where "q = p - 1"
  have pq: "int p - 1 = int q" using assms(1) by (simp add: q_def of_nat_diff)
  have e: "e + int q = ilog2 x" using assms pq by (simp add: e_def ulp_exp_def)
  have split: "(2::rat) powi (e + int q) = of_int (2 ^ q) * 2 powi e"
    by (simp add: power_int_add)
  have "of_int (2 ^ q) * 2 powi e \<le> x"
    using ilog2_bounds(1) [OF assms(2)] e split by simp
  then have "of_int (2 ^ q) \<le> x / 2 powi e" by (simp add: field_simps)
  then have "rne (of_int (2 ^ q)) \<le> rne (x / 2 powi e)" by (rule rne_mono)
  then have "2 ^ q \<le> rne (x / 2 powi e)" by (simp only: rne_of_int)
  then have "rat_of_int (2 ^ q) \<le> of_int (rne (x / 2 powi e))" by (simp only: of_int_le_iff)
  then have "rat_of_int (2 ^ q) * 2 powi e \<le> of_int (rne (x / 2 powi e)) * 2 powi e"
    by (intro mult_right_mono) simp_all
  with split have "(2::rat) powi (e + int q) \<le> of_int (rne (x / 2 powi e)) * 2 powi e"
    by (simp only:)
  moreover have "round_to p emin x = of_int (rne (x / 2 powi e)) * 2 powi e"
    using assms(2) by (simp add: round_to_def e_def)
  moreover have "ulp_exp p emin x + int p - 1 = e + int q"
    using pq by (simp add: e_def)
  ultimately show ?thesis by (simp only:)
qed

lemma round_to_mono_pos:
  assumes p: "0 < p" and x: "0 < x" and xy: "x \<le> y"
  shows "round_to p emin x \<le> round_to p emin y"
proof -
  define ex where "ex = ulp_exp p emin x"
  define ey where "ey = ulp_exp p emin y"
  have y: "0 < y" using x xy by simp
  have le: "ex \<le> ey" unfolding ex_def ey_def using x xy by (rule ulp_exp_mono)
  show ?thesis
  proof (cases "ex = ey")
    case True
    have "x / 2 powi ex \<le> y / 2 powi ex" using xy by (simp add: divide_right_mono)
    then have "rne (x / 2 powi ex) \<le> rne (y / 2 powi ex)" by (rule rne_mono)
    then have "rat_of_int (rne (x / 2 powi ex)) \<le> of_int (rne (y / 2 powi ex))"
      by (simp only: of_int_le_iff)
    then have "rat_of_int (rne (x / 2 powi ex)) * 2 powi ex \<le> of_int (rne (y / 2 powi ex)) * 2 powi ex"
      by (intro mult_right_mono) simp_all
    then show ?thesis using x y True by (simp add: round_to_def ex_def ey_def)
  next
    case False
    with le have lt: "ex + 1 \<le> ey" by simp
    have "emin \<le> ex" unfolding ex_def by (rule ulp_exp_ge)
    with lt have ny: "emin < ulp_exp p emin y" by (simp add: ey_def)
    have "round_to p emin x \<le> 2 powi (ex + int p)"
      unfolding ex_def using x by (rule round_to_upper)
    also have "\<dots> \<le> 2 powi (ey + int p - 1)"
      using lt by (intro power_int_increasing) simp_all
    also have "\<dots> \<le> round_to p emin y"
      unfolding ey_def using p y ny by (rule round_to_lower)
    finally show ?thesis .
  qed
qed

lemma round_to_mono:
  assumes p: "0 < p" and xy: "x \<le> y"
  shows "round_to p emin x \<le> round_to p emin y"
proof -
  consider "0 < x" | "x \<le> 0" "0 \<le> y" | "y < 0" by linarith
  then show ?thesis
  proof cases
    case 1
    then show ?thesis using p xy by (intro round_to_mono_pos)
  next
    case 2
    have "0 \<le> round_to p emin (- x)" using 2(1) by (intro round_to_nonneg) simp
    then have "round_to p emin x \<le> 0" by (simp add: round_to_minus)
    also have "0 \<le> round_to p emin y" using 2(2) by (rule round_to_nonneg)
    finally show ?thesis .
  next
    case 3
    then have "0 < - y" "- y \<le> - x" using xy by simp_all
    with p have "round_to p emin (- y) \<le> round_to p emin (- x)" by (intro round_to_mono_pos)
    then show ?thesis by (simp add: round_to_minus)
  qed
qed

lemma round_to_fix:
  assumes p: "0 < p" and e: "emin \<le> e" and m: "\<bar>m\<bar> < 2 ^ p"
  shows "round_to p emin (of_int m * 2 powi e) = of_int m * 2 powi e"
proof (cases "m = 0")
  case True
  then show ?thesis by simp
next
  case False
  define x :: rat where "x = of_int m * 2 powi e"
  have x0: "x \<noteq> 0" using False by (simp add: x_def)
  then have ax: "0 < \<bar>x\<bar>" by simp
  have "\<bar>x\<bar> = of_int \<bar>m\<bar> * 2 powi e" by (simp add: x_def abs_mult)
  also have "\<dots> < of_int (2 ^ p) * 2 powi e"
    using m by (intro mult_strict_right_mono) (simp_all only: of_int_less_iff zero_less_power_int zero_less_numeral)
  also have "\<dots> = 2 powi (e + int p - 1 + 1)" by (simp add: power_int_add)
  finally have "(2::rat) powi ilog2 \<bar>x\<bar> < 2 powi (e + int p - 1 + 1)"
    using ilog2_bounds(1) [OF ax] by linarith
  then have "ilog2 \<bar>x\<bar> \<le> e + int p - 1" by (rule powi_less_imp_le)
  with e have le: "ulp_exp p emin x \<le> e" by (simp add: ulp_exp_def)
  define d where "d = nat (e - ulp_exp p emin x)"
  define u :: rat where "u = 2 powi ulp_exp p emin x"
  have u0: "u \<noteq> 0" by (simp add: u_def)
  have "e = ulp_exp p emin x + int d" using le by (simp add: d_def)
  then have "(2::rat) powi e = 2 powi ulp_exp p emin x * 2 powi int d"
    by (simp add: power_int_add)
  then have pe: "(2::rat) powi e = u * 2 ^ d" by (simp add: u_def)
  have xu: "x = of_int (m * 2 ^ d) * u" by (simp add: x_def pe)
  then have "x / u = of_int (m * 2 ^ d)" using u0 by simp
  then have "rne (x / u) = m * 2 ^ d" by (simp only: rne_of_int)
  moreover have "round_to p emin x = of_int (rne (x / u)) * u"
    using x0 by (simp add: round_to_def u_def)
  ultimately have "round_to p emin x = x" using xu by simp
  then show ?thesis by (simp only: x_def)
qed

lemma round_to_eval:
  assumes "2 powi k \<le> \<bar>x\<bar>" "\<bar>x\<bar> < 2 powi (k + 1)"
  shows "round_to p emin x =
    of_int (rne (x / 2 powi max emin (k - (int p - 1)))) * 2 powi max emin (k - (int p - 1))"
proof -
  have "ilog2 \<bar>x\<bar> = k" using assms by (rule ilog2_unique)
  moreover have "x \<noteq> 0"
  proof
    assume "x = 0"
    then have "2 powi k \<le> (0::rat)" using assms(1) by simp
    moreover have "0 < (2::rat) powi k" by simp
    ultimately show False by linarith
  qed
  ultimately show ?thesis by (simp add: round_to_def ulp_exp_def)
qed

lemma scaled_lt:
  assumes "x \<noteq> 0"
  shows "\<bar>x\<bar> / 2 powi ulp_exp p emin x < 2 ^ p"
proof -
  define e where "e = ulp_exp p emin x"
  have ax: "0 < \<bar>x\<bar>" using assms by simp
  have "ilog2 \<bar>x\<bar> + 1 \<le> e + int p" by (simp add: e_def ulp_exp_def)
  then have "(2::rat) powi (ilog2 \<bar>x\<bar> + 1) \<le> 2 powi (e + int p)"
    by (intro power_int_increasing) simp_all
  with ilog2_bounds(2) [OF ax] have "\<bar>x\<bar> < 2 powi (e + int p)" by linarith
  also have "\<dots> = 2 powi e * 2 ^ p" by (simp add: power_int_add)
  finally show ?thesis by (simp add: field_simps e_def)
qed

lemma rne_scaled_le:
  assumes "x \<noteq> 0"
  shows "\<bar>rne (x / 2 powi ulp_exp p emin x)\<bar> \<le> 2 ^ p"
proof -
  define t where "t = x / 2 powi ulp_exp p emin x"
  have "\<bar>t\<bar> = \<bar>x\<bar> / 2 powi ulp_exp p emin x" by (simp add: t_def)
  with scaled_lt [OF assms, of p emin] have "\<bar>t\<bar> < of_int (2 ^ p)" by simp
  then have t: "t \<le> of_int (2 ^ p)" "of_int (- (2 ^ p)) \<le> t" by (simp_all add: abs_less_iff)
  have "rne t \<le> rne (of_int (2 ^ p))" "rne (of_int (- (2 ^ p))) \<le> rne t"
    by (rule rne_mono [OF t(1)], rule rne_mono [OF t(2)])
  then have "rne t \<le> 2 ^ p" "- (2 ^ p) \<le> rne t" by (simp_all only: rne_of_int)
  then show ?thesis by (simp add: t_def abs_le_iff)
qed

lemma round_to_repr:
  assumes p: "0 < p"
  shows "\<exists>m e. round_to p emin x = of_int m * 2 powi e \<and> emin \<le> e \<and> \<bar>m\<bar> < 2 ^ p"
proof (cases "x = 0")
  case True
  have "round_to p emin x = of_int 0 * 2 powi emin \<and> emin \<le> emin \<and> \<bar>0::int\<bar> < 2 ^ p"
    using True by simp
  then show ?thesis by blast
next
  case False
  define e where "e = ulp_exp p emin x"
  define M where "M = rne (x / 2 powi e)"
  have r: "round_to p emin x = of_int M * 2 powi e"
    using False by (simp add: round_to_def e_def M_def)
  have Mle: "\<bar>M\<bar> \<le> 2 ^ p" unfolding M_def e_def using False by (rule rne_scaled_le)
  have ee: "emin \<le> e" unfolding e_def by (rule ulp_exp_ge)
  show ?thesis
  proof (cases "\<bar>M\<bar> < 2 ^ p")
    case True
    with r ee show ?thesis by blast
  next
    case False
    with Mle have Meq: "\<bar>M\<bar> = 2 ^ p" by simp
    obtain q where q: "p = Suc q" using p by (cases p) simp_all
    define m :: int where "m = (if 0 \<le> M then 2 ^ q else - (2 ^ q))"
    have "M = m * 2" using Meq by (auto simp: m_def q abs_if split: if_splits)
    then have "round_to p emin x = of_int m * 2 powi (e + 1)"
      by (simp add: r power_int_add)
    moreover have "\<bar>m\<bar> < 2 ^ p" by (simp add: m_def q)
    moreover have "emin \<le> e + 1" using ee by simp
    ultimately show ?thesis by blast
  qed
qed

lemma round_to_idem:
  assumes "0 < p"
  shows "round_to p emin (round_to p emin x) = round_to p emin x"
proof -
  obtain m e where "round_to p emin x = of_int m * 2 powi e" "emin \<le> e" "\<bar>m\<bar> < 2 ^ p"
    using round_to_repr [OF assms] by blast
  then show ?thesis using round_to_fix [OF assms, of emin e m] by simp
qed

lemma round_to_double:
  assumes "0 < p" "round_to p emin y = y"
  shows "round_to p emin (y * 2) = y * 2"
proof -
  obtain m e where me: "round_to p emin y = of_int m * 2 powi e" "emin \<le> e" "\<bar>m\<bar> < 2 ^ p"
    using round_to_repr [OF assms(1)] by blast
  then have "y * 2 = of_int m * 2 powi (e + 1)"
    using assms(2) by (simp add: power_int_add)
  moreover have "emin \<le> e + 1" using me(2) by simp
  ultimately show ?thesis using round_to_fix [OF assms(1) _ me(3), of emin "e + 1"] by simp
qed

lemma round_to_abs_error: "\<bar>round_to p emin x - x\<bar> \<le> 2 powi ulp_exp p emin x / 2"
proof (cases "x = 0")
  case True
  then show ?thesis by simp
next
  case False
  define u :: rat where "u = 2 powi ulp_exp p emin x"
  have u: "0 < u" by (simp add: u_def)
  have "round_to p emin x - x = (of_int (rne (x / u)) - x / u) * u"
    using False u by (simp add: round_to_def u_def field_simps)
  then have "\<bar>round_to p emin x - x\<bar> = \<bar>of_int (rne (x / u)) - x / u\<bar> * u"
    using u by (simp add: abs_mult)
  also have "\<dots> \<le> (1 / 2) * u"
    using rne_error [of "x / u"] u by (intro mult_right_mono) simp_all
  finally show ?thesis by (simp add: u_def)
qed

lemma ilog2_powi [simp]: "ilog2 (2 powi k) = k"
  by (rule ilog2_unique) (simp_all add: power_int_add)

lemma round_to_rel_error:
  assumes p: "0 < p" and normal: "2 powi (emin + int p - 1) \<le> \<bar>x\<bar>"
  shows "\<bar>round_to p emin x - x\<bar> \<le> \<bar>x\<bar> / 2 ^ p"
proof -
  have "0 < (2::rat) powi (emin + int p - 1)" by simp
  with normal have ax: "0 < \<bar>x\<bar>" by linarith
  have "ilog2 (2 powi (emin + int p - 1)) \<le> ilog2 \<bar>x\<bar>"
    using normal by (intro ilog2_mono) simp_all
  then have "emin \<le> ilog2 \<bar>x\<bar> - (int p - 1)" by simp
  then have e: "ulp_exp p emin x = ilog2 \<bar>x\<bar> - (int p - 1)" by (simp add: ulp_exp_def)
  obtain q where q: "p = Suc q" using p by (cases p) simp_all
  have "ilog2 \<bar>x\<bar> = ulp_exp p emin x + int q"
    unfolding e by (simp add: q)
  then have "(2::rat) powi ilog2 \<bar>x\<bar> = 2 powi (ulp_exp p emin x + int q)"
    by (simp only:)
  also have "\<dots> = 2 powi ulp_exp p emin x * 2 ^ q" by (simp add: power_int_add)
  finally have "2 powi ulp_exp p emin x * 2 ^ q \<le> \<bar>x\<bar>"
    using ilog2_bounds(1) [OF ax] by simp
  then have "2 powi ulp_exp p emin x / 2 \<le> \<bar>x\<bar> / 2 ^ p"
    by (simp add: q field_simps)
  with round_to_abs_error [of p emin x] show ?thesis by linarith
qed

lemma round_to_int:
  assumes "0 < p" "emin \<le> 0" "\<bar>m\<bar> < 2 ^ p"
  shows "round_to p emin (of_int m) = of_int m"
  using round_to_fix [OF assms(1) assms(2) assms(3)] by simp

lemma round_to_dyadic:
  assumes "0 < p" "emin \<le> - int n" "\<bar>m\<bar> < 2 ^ p"
  shows "round_to p emin (of_int m / 2 ^ n) = of_int m / 2 ^ n"
  using round_to_fix [OF assms(1) assms(2) assms(3)] by (simp add: power_int_minus_divide)

subsection \<open>The two formats of the component\<close>

lemma fl64_mono: "x \<le> y \<Longrightarrow> fl64 x \<le> fl64 y"
  unfolding fl64_def by (rule round_to_mono) simp

lemma fround_mono: "x \<le> y \<Longrightarrow> fround x \<le> fround y"
  unfolding fround_def by (rule round_to_mono) simp

lemma fl64_int: "\<bar>m\<bar> < 2 ^ 53 \<Longrightarrow> fl64 (of_int m) = of_int m"
  unfolding fl64_def by (rule round_to_int) simp_all

lemma fround_int: "\<bar>m\<bar> < 2 ^ 24 \<Longrightarrow> fround (of_int m) = of_int m"
  unfolding fround_def by (rule round_to_int) simp_all

lemma fl64_dyadic: "\<bar>m\<bar> < 2 ^ 53 \<Longrightarrow> n \<le> 1074 \<Longrightarrow> fl64 (of_int m / 2 ^ n) = of_int m / 2 ^ n"
  unfolding fl64_def by (rule round_to_dyadic) simp_all

lemma fl64_half [simp]: "fl64 (1 / 2) = 1 / 2"
  using fl64_dyadic [of 1 1] by simp

lemma fl64_neg_half [simp]: "fl64 (- (1 / 2)) = - (1 / 2)"
  using fl64_dyadic [of "- 1" 1] by simp

lemma fl64_2000 [simp]: "fl64 2000 = 2000"
  using fl64_int [of 2000] by simp

lemma fl64_1000 [simp]: "fl64 1000 = 1000"
  using fl64_int [of 1000] by simp

lemma fl64_neg_1000 [simp]: "fl64 (- 1000) = - 1000"
  using fl64_int [of "- 1000"] by simp

lemma fl64_2 [simp]: "fl64 2 = 2"
  using fl64_int [of 2] by simp

lemma fl64_3 [simp]: "fl64 3 = 3"
  using fl64_int [of 3] by simp

lemma fl64_0 [simp]: "fl64 0 = 0"
  by (simp add: fl64_def)

lemma fround_1000 [simp]: "fround 1000 = 1000"
  using fround_int [of 1000] by simp

lemma fround_neg_1000 [simp]: "fround (- 1000) = - 1000"
  using fround_int [of "- 1000"] by simp

lemma fl64_nonneg: "0 \<le> x \<Longrightarrow> 0 \<le> fl64 x"
  unfolding fl64_def by (rule round_to_nonneg)

lemma fl64_rel_error:
  assumes "1 / 2 ^ 1022 \<le> \<bar>x\<bar>"
  shows "\<bar>fl64 x - x\<bar> \<le> \<bar>x\<bar> / 2 ^ 53"
proof -
  have "(2::rat) powi (- 1074 + int 53 - 1) = 1 / 2 ^ 1022"
    by (simp add: power_int_minus_divide)
  with assms have "2 powi (- 1074 + int 53 - 1) \<le> \<bar>x\<bar>" by (simp only:)
  then show ?thesis
    unfolding fl64_def by (intro round_to_rel_error) simp_all
qed

section \<open>Properties of the component\<close>

subsection \<open>The generator\<close>

declare for_loop.simps [simp del]

lemma loop_body_eq:
  "loop_body rnd i (ps, c) =
     (ps[i * 3 := fround (axis_value (rnd c)),
         i * 3 + 1 := fround (axis_value (rnd (Suc c))),
         i * 3 + 2 := fround (axis_value (rnd (Suc (Suc c))))], c + 3)"
  by (simp add: loop_body_def Math_random_def store_def)

lemma for_loop_length: "length (fst (for_loop n rnd i (ps, c))) = length ps"
proof (induction "n - i" arbitrary: i ps c)
  case 0
  then show ?case by (simp add: for_loop.simps)
next
  case (Suc d)
  then have "i < n" and "d = n - Suc i" by simp_all
  with Suc.hyps(1) [of "Suc i"] show ?case
    by (subst for_loop.simps) (simp add: loop_body_eq)
qed

lemma for_loop_nth:
  assumes "length ps = n * 3" "j < n * 3"
  shows "fst (for_loop n rnd i (ps, i * 3)) ! j =
    (if i * 3 \<le> j then fround (axis_value (rnd j)) else ps ! j)"
  using assms
proof (induction "n - i" arbitrary: i ps)
  case 0
  then show ?case by (simp add: for_loop.simps)
next
  case (Suc d)
  then have lt: "i < n" and d: "d = n - Suc i" by simp_all
  define ps' where "ps' = ps[i * 3 := fround (axis_value (rnd (i * 3))),
         i * 3 + 1 := fround (axis_value (rnd (Suc (i * 3)))),
         i * 3 + 2 := fround (axis_value (rnd (Suc (Suc (i * 3)))))]"
  have len: "length ps' = n * 3" using Suc.prems by (simp add: ps'_def)
  have step: "for_loop n rnd i (ps, i * 3) = for_loop n rnd (Suc i) (ps', Suc i * 3)"
    using lt by (subst for_loop.simps) (simp add: loop_body_eq ps'_def add.commute)
  have ih: "fst (for_loop n rnd (Suc i) (ps', Suc i * 3)) ! j =
    (if Suc i * 3 \<le> j then fround (axis_value (rnd j)) else ps' ! j)"
    using Suc.hyps(1) [OF d len Suc.prems(2)] .
  have res: "fst (for_loop n rnd i (ps, i * 3)) ! j =
    (if Suc i * 3 \<le> j then fround (axis_value (rnd j)) else ps' ! j)"
    unfolding step by (rule ih)
  have in_range: "i * 3 + 2 < length ps" using lt Suc.prems(1) by simp
  show ?case
  proof (cases "Suc i * 3 \<le> j")
    case True
    then show ?thesis by (simp add: res)
  next
    case False
    then have val: "fst (for_loop n rnd i (ps, i * 3)) ! j = ps' ! j" by (simp add: res)
    from False consider "j < i * 3" | "j = i * 3" | "j = i * 3 + 1" | "j = i * 3 + 2" by force
    then have "ps' ! j = (if i * 3 \<le> j then fround (axis_value (rnd j)) else ps ! j)"
      using in_range by cases (simp_all add: ps'_def)
    with val show ?thesis by simp
  qed
qed

lemma generate_length: "length (generate n rnd) = n * 3"
  by (simp add: generate_def for_loop_length)

lemma generate_nth: "j < n * 3 \<Longrightarrow> generate n rnd ! j = fround (axis_value (rnd j))"
  using for_loop_nth [of "replicate (n * 3) 0" n j rnd 0] by (simp add: generate_def)

lemma axis_value_eq: "axis_value u = fl64 (fl64 (u - 1 / 2) * 2000)"
  by (simp add: axis_value_def num_mul_def num_sub_def lit_def)

lemma axis_value_bounds:
  assumes "0 \<le> u" "u < 1"
  shows "- 1000 \<le> axis_value u" and "axis_value u \<le> 1000"
proof -
  define t where "t = fl64 (u - 1 / 2)"
  have "fl64 (- (1 / 2)) \<le> t"
    unfolding t_def using assms by (intro fl64_mono) simp
  moreover have "t \<le> fl64 (1 / 2)"
    unfolding t_def using assms by (intro fl64_mono) simp
  ultimately have lo: "- 1000 \<le> t * 2000" and hi: "t * 2000 \<le> 1000"
    by simp_all
  have "fl64 (- 1000) \<le> fl64 (t * 2000)" using lo by (rule fl64_mono)
  moreover have "fl64 (t * 2000) \<le> fl64 1000" using hi by (rule fl64_mono)
  ultimately show "- 1000 \<le> axis_value u" and "axis_value u \<le> 1000"
    by (simp_all add: axis_value_eq t_def)
qed

lemma stored_bounds:
  assumes "0 \<le> u" "u < 1"
  shows "- 1000 \<le> fround (axis_value u)" and "fround (axis_value u) \<le> 1000"
proof -
  have "fround (- 1000) \<le> fround (axis_value u)"
    using axis_value_bounds(1) [OF assms] by (rule fround_mono)
  moreover have "fround (axis_value u) \<le> fround 1000"
    using axis_value_bounds(2) [OF assms] by (rule fround_mono)
  ultimately show "- 1000 \<le> fround (axis_value u)" and "fround (axis_value u) \<le> 1000"
    by simp_all
qed

lemma double_below_one:
  assumes "fl64 u = u" "u < 1"
  shows "u \<le> 1 - 1 / 2 ^ 53"
proof (cases "1 / 2 \<le> u")
  case False
  then show ?thesis by simp
next
  case True
  define M where "M = rne (u / 2 powi (- 53))"
  have "2 powi (- 1) \<le> \<bar>u\<bar>" "\<bar>u\<bar> < 2 powi (- 1 + 1)"
    using True assms(2) by simp_all
  then have "fl64 u = of_int M * 2 powi (- 53)"
    unfolding fl64_def M_def using round_to_eval [of "- 1" u 53 "- 1074"] by simp
  with assms(1) have u: "u = of_int M / 2 ^ 53" by simp
  with assms(2) have "rat_of_int M < of_int (2 ^ 53)" by simp
  then have "M < 2 ^ 53" by (simp only: of_int_less_iff)
  then have "M \<le> 2 ^ 53 - 1" by simp
  then have "rat_of_int M \<le> of_int (2 ^ 53 - 1)" by (simp only: of_int_le_iff)
  then show ?thesis by (simp add: u field_simps)
qed

lemma fl64_below_half: "fl64 (1 / 2 - 1 / 2 ^ 53) = 1 / 2 - 1 / 2 ^ 53"
  using fl64_dyadic [of "2 ^ 52 - 1" 53] by simp

lemma fl64_below_1000: "fl64 (1000 - 2000 / 2 ^ 53) = 1000 - 1 / 2 ^ 42"
  by code_simp

lemma axis_value_less:
  assumes "fl64 u = u" "u < 1"
  shows "axis_value u < 1000"
proof -
  define t where "t = fl64 (u - 1 / 2)"
  have "u - 1 / 2 \<le> 1 / 2 - 1 / 2 ^ 53" using double_below_one [OF assms] by simp
  then have "t \<le> fl64 (1 / 2 - 1 / 2 ^ 53)" unfolding t_def by (rule fl64_mono)
  then have "t \<le> 1 / 2 - 1 / 2 ^ 53" by (simp only: fl64_below_half)
  then have "t * 2000 \<le> (1 / 2 - 1 / 2 ^ 53) * 2000" by (rule mult_right_mono) simp
  then have "t * 2000 \<le> 1000 - 2000 / 2 ^ 53" by simp
  then have "fl64 (t * 2000) \<le> fl64 (1000 - 2000 / 2 ^ 53)" by (rule fl64_mono)
  then have "fl64 (t * 2000) \<le> 1000 - 1 / 2 ^ 42" by (simp only: fl64_below_1000)
  then show ?thesis by (simp add: axis_value_eq t_def)
qed

lemma fl64_idem: "fl64 (fl64 x) = fl64 x"
  unfolding fl64_def by (rule round_to_idem) simp

lemma fl64_double: "fl64 y = y \<Longrightarrow> fl64 (y * 2) = y * 2"
  unfolding fl64_def by (rule round_to_double) simp_all

lemma axis_value_spec_form:
  "axis_value u = num_mul (num_mul (num_sub u (lit (1 / 2))) (lit 2)) (lit 1000)"
proof -
  define t where "t = fl64 (u - 1 / 2)"
  have "fl64 t = t" unfolding t_def by (rule fl64_idem)
  then have "fl64 (t * 2) = t * 2" by (rule fl64_double)
  then have "fl64 (fl64 (t * 2) * 1000) = fl64 (t * 2000)" by (simp add: mult.commute)
  then show ?thesis
    by (simp only: axis_value_eq num_mul_def num_sub_def lit_def t_def fl64_half fl64_2 fl64_1000)
qed

lemma count_default: "count (bufferAttribute (starPositions rnd)) = 10000"
  using fl64_int [of 10000]
  by (simp add: bufferAttribute_def num_div_def lit_def starPositions_def generate_length)

subsection \<open>The frame callback\<close>

lemma useFrame_callback_attached:
  assumes "starsRef_current s = Some obj"
  shows "useFrame_callback s = Inr (s\<lparr>starsRef_current := Some (turned (Suc 0) obj)\<rparr>)"
  using assms
  by (simp add: useFrame_callback_def truthy_def add_rotation_y_def add_rotation_x_def turned_def)

lemma useFrame_callback_detached:
  assumes "starsRef_current s = None"
  shows "useFrame_callback s = Inr s"
  using assms by (simp add: useFrame_callback_def truthy_def)

lemma turned_turned: "turned k (turned (Suc 0) obj) = turned (Suc k) obj"
  by (simp add: turned_def)

lemma turned_0: "turned 0 obj = obj"
  by (simp add: turned_def)

lemma frames_attached:
  assumes "starsRef_current s = Some obj"
  shows "frames k s = Inr (s\<lparr>starsRef_current := Some (turned k obj)\<rparr>)"
  using assms
proof (induction k arbitrary: s obj)
  case 0
  then show ?case by (simp add: turned_0)
next
  case (Suc k)
  have "starsRef_current (s\<lparr>starsRef_current := Some (turned (Suc 0) obj)\<rparr>) = Some (turned (Suc 0) obj)"
    by simp
  from Suc.IH [OF this] show ?case
    by (simp add: useFrame_callback_attached [OF Suc.prems] turned_turned)
qed

lemma frames_detached:
  assumes "starsRef_current s = None"
  shows "frames k s = Inr s"
  using assms by (induction k) (simp_all add: useFrame_callback_detached)

lemma drift_Suc: "drift d (Suc k) a = num_add (drift d k a) d"
  by (induction k arbitrary: a) simp_all

lemma drift_nonneg: "0 \<le> d \<Longrightarrow> 0 \<le> a \<Longrightarrow> 0 \<le> drift d k a"
  by (induction k arbitrary: a) (simp_all add: num_add_def fl64_nonneg)

lemma drift_error:
  assumes d: "1 / 2 ^ 1022 \<le> d" and k: "k \<le> 2 ^ 53"
  shows "\<bar>drift d k 0 - of_nat k * d\<bar> \<le> of_nat k * of_nat k * d / 2 ^ 53"
  using k
proof (induction k)
  case 0
  then show ?case by simp
next
  case (Suc k)
  define eps :: rat where "eps = 1 / 2 ^ 53"
  define D :: rat where "D = of_nat k"
  define s where "s = drift d k 0"
  define z where "z = s + d"
  have dpos: "0 < d"
  proof -
    have "(0::rat) < 1 / 2 ^ 1022" by simp
    with d show ?thesis by linarith
  qed
  have eps: "0 < eps" by (simp add: eps_def)
  have D0: "0 \<le> D" by (simp add: D_def)
  have "k \<le> 2 ^ 53" using Suc.prems by simp
  then have "D \<le> of_nat (2 ^ 53)" unfolding D_def by (simp only: of_nat_le_iff)
  then have Deps: "D * eps \<le> 1" by (simp add: eps_def)
  have ih: "\<bar>s - D * d\<bar> \<le> D * D * d * eps"
    using Suc.IH [OF \<open>k \<le> 2 ^ 53\<close>] by (simp add: s_def D_def eps_def)
  have s0: "0 \<le> s" unfolding s_def using dpos by (intro drift_nonneg) simp_all
  have zd: "d \<le> z" using s0 by (simp add: z_def)
  then have zpos: "0 < z" using dpos by linarith
  have "1 / 2 ^ 1022 \<le> \<bar>z\<bar>" using d zd by linarith
  then have "\<bar>fl64 z - z\<bar> \<le> \<bar>z\<bar> / 2 ^ 53" by (rule fl64_rel_error)
  then have r: "\<bar>fl64 z - z\<bar> \<le> z * eps" using zpos by (simp add: eps_def)
  have "z \<le> D * d + D * D * d * eps + d" using ih by (simp add: z_def abs_le_iff)
  then have "z * eps \<le> (D * d + D * D * d * eps + d) * eps"
    using eps by (intro mult_right_mono) simp_all
  with r have r': "\<bar>fl64 z - z\<bar> \<le> (D * d + D * D * d * eps + d) * eps" by linarith
  have "D * (D * eps) \<le> D * 1" using Deps D0 by (intro mult_left_mono)
  then have "D * (D * eps) * (d * eps) \<le> D * 1 * (d * eps)"
    using dpos eps by (intro mult_right_mono) simp_all
  then have E: "D * D * d * eps * eps \<le> D * d * eps" by (simp add: mult_ac)
  have "fl64 z - (D + 1) * d = (fl64 z - z) + (s - D * d)"
    by (simp add: z_def algebra_simps)
  then have "\<bar>fl64 z - (D + 1) * d\<bar> \<le> \<bar>fl64 z - z\<bar> + \<bar>s - D * d\<bar>"
    by (simp only: abs_triangle_ineq)
  also have "\<dots> \<le> (D * d + D * D * d * eps + d) * eps + D * D * d * eps"
    using r' ih by linarith
  also have "\<dots> \<le> (D + 1) * (D + 1) * d * eps"
    using E by (simp add: algebra_simps)
  finally have fin: "\<bar>fl64 z - (D + 1) * d\<bar> \<le> (D + 1) * (D + 1) * d * eps" .
  have e1: "drift d (Suc k) 0 = fl64 z"
    by (simp only: drift_Suc num_add_def z_def s_def)
  have e2: "rat_of_nat (Suc k) = D + 1" by (simp add: D_def)
  show ?case unfolding e1 e2 using fin by (simp add: eps_def)
qed

lemma fl64_tie_2_53: "fl64 (2 ^ 53 + 1) = 2 ^ 53"
  by code_simp

lemma drift_bounded:
  assumes "0 \<le> d" "d \<le> 1" "0 \<le> a" "a \<le> 2 ^ 53"
  shows "0 \<le> drift d k a \<and> drift d k a \<le> 2 ^ 53"
  using assms(3,4)
proof (induction k arbitrary: a)
  case 0
  then show ?case by simp
next
  case (Suc k)
  have "a + d \<le> 2 ^ 53 + 1" using Suc.prems(2) assms(2) by linarith
  then have "fl64 (a + d) \<le> fl64 (2 ^ 53 + 1)" by (rule fl64_mono)
  then have "num_add a d \<le> 2 ^ 53" by (simp only: num_add_def fl64_tie_2_53)
  moreover have "0 \<le> num_add a d"
    unfolding num_add_def using Suc.prems(1) assms(1) by (intro fl64_nonneg) simp
  ultimately show ?case using Suc.IH [of "num_add a d"] by simp
qed

lemma fl64_1 [simp]: "fl64 1 = 1"
  using fl64_int [of 1] by simp

text \<open>
  An angle that starts at 0 and grows by a literal between 0 and 1 never leaves
  the interval from 0 to \<open>2 ^ 53\<close>, however many frames are run.
\<close>

lemma drift_literal_bounded:
  assumes "0 \<le> v" "v \<le> 1"
  shows "0 \<le> drift (lit v) k 0 \<and> drift (lit v) k 0 \<le> 2 ^ 53"
proof -
  have "fl64 0 \<le> fl64 v" using assms(1) by (rule fl64_mono)
  moreover have "fl64 v \<le> fl64 1" using assms(2) by (rule fl64_mono)
  ultimately have "0 \<le> lit v" "lit v \<le> 1" by (simp_all add: lit_def)
  then show ?thesis by (intro drift_bounded) simp_all
qed

lemma fl64_min_normal: "fl64 (1 / 2 ^ 1022) = 1 / 2 ^ 1022"
  using fl64_dyadic [of 1 1022] by simp

lemma drift_literal_error:
  assumes v: "1 / 2 ^ 1022 \<le> v" and k: "k \<le> 2 ^ 53"
  shows "\<bar>drift (lit v) k 0 - of_nat k * v\<bar> \<le> (of_nat k + 1) * (of_nat k + 1) * v / 2 ^ 53"
proof -
  define eps :: rat where "eps = 1 / 2 ^ 53"
  define D :: rat where "D = of_nat k"
  define d where "d = lit v"
  have vpos: "0 < v"
  proof -
    have "(0::rat) < 1 / 2 ^ 1022" by simp
    with v show ?thesis by linarith
  qed
  have eps: "0 < eps" by (simp add: eps_def)
  have D0: "0 \<le> D" by (simp add: D_def)
  have "D \<le> of_nat (2 ^ 53)" unfolding D_def using k by (simp only: of_nat_le_iff)
  then have Deps: "D * eps \<le> 1" by (simp add: eps_def)
  have "fl64 (1 / 2 ^ 1022) \<le> fl64 v" using v by (rule fl64_mono)
  then have dn: "1 / 2 ^ 1022 \<le> d" by (simp only: fl64_min_normal d_def lit_def)
  have "1 / 2 ^ 1022 \<le> \<bar>v\<bar>" using v by linarith
  then have "\<bar>fl64 v - v\<bar> \<le> \<bar>v\<bar> / 2 ^ 53" by (rule fl64_rel_error)
  then have dv: "\<bar>d - v\<bar> \<le> v * eps" using vpos by (simp add: d_def lit_def eps_def)
  then have dle: "d \<le> v + v * eps" by (simp add: abs_le_iff)
  have "\<bar>drift d k 0 - of_nat k * d\<bar> \<le> of_nat k * of_nat k * d / 2 ^ 53"
    using dn k by (rule drift_error)
  then have e1: "\<bar>drift d k 0 - D * d\<bar> \<le> D * D * eps * d" by (simp add: D_def eps_def)
  have "D * D * eps * d \<le> D * D * eps * (v + v * eps)"
    using dle D0 eps by (intro mult_left_mono) simp_all
  with e1 have e2: "\<bar>drift d k 0 - D * d\<bar> \<le> D * D * eps * (v + v * eps)" by linarith
  have "\<bar>D * d - D * v\<bar> = D * \<bar>d - v\<bar>"
    using D0 by (simp add: abs_mult flip: right_diff_distrib)
  also have "\<dots> \<le> D * (v * eps)" using dv D0 by (intro mult_left_mono)
  finally have e3: "\<bar>D * d - D * v\<bar> \<le> D * (v * eps)" .
  have "D * (D * eps) \<le> D * 1" using Deps D0 by (intro mult_left_mono)
  then have "D * (D * eps) * (v * eps) \<le> D * 1 * (v * eps)"
    using vpos eps by (intro mult_right_mono) simp_all
  then have E: "D * D * eps * (v * eps) \<le> D * (v * eps)" by (simp add: mult_ac)
  have "drift d k 0 - D * v = (drift d k 0 - D * d) + (D * d - D * v)" by simp
  then have "\<bar>drift d k 0 - D * v\<bar> \<le> \<bar>drift d k 0 - D * d\<bar> + \<bar>D * d - D * v\<bar>"
    by (simp only: abs_triangle_ineq)
  also have "\<dots> \<le> D * D * eps * (v + v * eps) + D * (v * eps)" using e2 e3 by linarith
  also have "\<dots> \<le> (D + 1) * (D + 1) * v * eps"
  proof -
    have "0 \<le> v * eps" using vpos eps by simp
    with E show ?thesis by (simp add: algebra_simps)
  qed
  finally show ?thesis by (simp add: d_def D_def eps_def)
qed

subsection \<open>The mounted component\<close>

lemma starPositions_length: "length (starPositions rnd) = 30000"
  by (simp add: starPositions_def generate_length)

lemma starPositions_nth: "j < 30000 \<Longrightarrow> starPositions rnd ! j = fround (axis_value (rnd j))"
  by (simp add: starPositions_def generate_nth)

lemma frames_any:
  "frames k s = Inr (s\<lparr>starsRef_current := map_option (turned k) (starsRef_current s)\<rparr>)"
proof (cases "starsRef_current s")
  case None
  then show ?thesis by (simp add: frames_detached)
next
  case (Some obj)
  then show ?thesis by (simp add: frames_attached)
qed

lemma orientation_frames:
  "orientation (frames k (StarField rnd)) =
     Some (drift (lit (2 / 10000)) k 0, drift (lit (1 / 10000)) k 0)"
  by (simp add: frames_any orientation_def StarField_def Stars_def turned_def)

lemma stored_positions_frames:
  "stored_positions (frames k (StarField rnd)) = Some (starPositions rnd)"
  by (simp add: frames_any stored_positions_def StarField_def Stars_def turned_def
      bufferAttribute_def)

lemma valid_const_draws: "0 \<le> u \<Longrightarrow> u < 1 \<Longrightarrow> fl64 u = u \<Longrightarrow> valid_draws (const_draws u)"
  by (simp add: valid_draws_def const_draws_def)

lemma axis_value_0: "axis_value 0 = - 1000"
  by (simp add: axis_value_eq)

lemma fl64_neg_1 [simp]: "fl64 (- 1) = - 1"
  using fl64_int [of "- 1"] by simp

lemma valid_draws_0: "valid_draws (const_draws 0)"
  by (rule valid_const_draws) simp_all

lemma only_rotation_differs_turned:
  "only_rotation_differs s (s\<lparr>starsRef_current := map_option (turned k) (starsRef_current s)\<rparr>)"
  by (cases "starsRef_current s") (simp_all add: only_rotation_differs_def turned_def)

lemma frames_one: "frames (Suc 0) s = useFrame_callback s"
  by (cases "useFrame_callback s") simp_all

lemma axis_value_half: "axis_value (1 / 2) = 0"
  by (simp add: axis_value_eq)

subsection \<open>Concrete roundings\<close>

lemma lit_normal: "1 / 2 ^ 1022 \<le> (2 / 10000 :: rat)" "1 / 2 ^ 1022 \<le> (1 / 10000 :: rat)"
  by simp_all

lemma drift_y_7: "drift (lit (2 / 10000)) 7 0 = 807045053224793 / 576460752303423488"
  by code_simp

lemma drift_x_7: "drift (lit (1 / 10000)) 7 0 = 807045053224793 / 1152921504606846976"
  by code_simp

lemma product_y_7: "num_mul 7 (lit (2 / 10000)) = 6456360425798343 / 4611686018427387904"
  by code_simp

lemma literal_y_7: "lit (7 * (2 / 10000)) = 6456360425798343 / 4611686018427387904"
  by code_simp

lemma fl64_near_one: "fl64 (134217727 / 134217728) = 134217727 / 134217728"
  using fl64_dyadic [of 134217727 27] by simp

lemma stored_near_one: "fround (axis_value (134217727 / 134217728)) = 1000"
  unfolding axis_value_eq by code_simp

subsection \<open>The generator with its constants as parameters\<close>

text \<open>
  For a count the allocation accepts, the generator returns the array whose entry
  \<open>j\<close> is written from draw number \<open>j\<close>; for any other count the allocation throws.
  With the constants of the source it returns \<^verbatim>\<open>starPositions\<close>.
\<close>

declare for_loop_E.simps [simp del]





lemma generator_invalid:
  assumes "N < 0 \<or> 2 ^ 53 - 1 < N * 3"
  shows "generator N E rnd = Inl RangeError"
  using assms by (auto simp: generator_def Float32Array_new_def)



lemma fround_neg_half [simp]: "fround (- (1 / 2)) = - (1 / 2)"
  unfolding fround_def using round_to_dyadic [of 24 "- 149" 1 "- 1"] by simp


section \<open>The claims\<close>

text \<open>
  C1. With the default parameters (10000 stars, half-extent 1000) the generator
  returns exactly 10000 coordinate triples, and the component on axis \<open>a\<close> of
  coordinate \<open>i\<close> is \<open>(u - 0.5) * 2 * 1000\<close>, evaluated left to right in binary64 and
  converted to binary32 when it is written into the array, where \<open>u\<close> is the result
  of a call of \<^verbatim>\<open>Math.random\<close> of its own: call number \<open>i * 3 + a\<close>.
\<close>

theorem starPositions_components:
  "length (starPositions rnd) = 10000 * 3 \<and>
   (\<forall>i<10000. \<forall>a<3. starPositions rnd ! (i * 3 + a) =
      fround (num_mul (num_mul (num_sub (rnd (i * 3 + a)) (lit (1 / 2))) (lit 2)) (lit 1000)))"
proof -
  have "starPositions rnd ! (i * 3 + a) =
      fround (num_mul (num_mul (num_sub (rnd (i * 3 + a)) (lit (1 / 2))) (lit 2)) (lit 1000))"
    if "i < 10000" "a < 3" for i a
  proof -
    have "i * 3 + a < 30000" using that by simp
    then show ?thesis by (simp only: starPositions_nth axis_value_spec_form)
  qed
  then show ?thesis by (simp add: starPositions_length)
qed

theorem starPositions_components_witness:
  "(4::nat) < 10000 \<and> (2::nat) < 3 \<and> length (starPositions (const_draws 0)) = 30000 \<and>
   starPositions (const_draws 0) ! (4 * 3 + 2) = - 1000"
proof -
  have "starPositions (const_draws 0) ! (4 * 3 + 2) =
      fround (num_mul (num_mul (num_sub (const_draws 0 (4 * 3 + 2)) (lit (1 / 2))) (lit 2)) (lit 1000))"
    using starPositions_components [of "const_draws 0", THEN conjunct2, rule_format, of 4 2]
    by simp
  moreover have "length (starPositions (const_draws 0)) = 30000"
    using starPositions_components [of "const_draws 0"] by simp
  ultimately show ?thesis
    by (simp add: const_draws_def num_mul_def num_sub_def lit_def)
qed

text \<open>
  C2. Every component of every generated coordinate lies in the closed interval
  \<open>[-1000, 1000]\<close>, and the array the points object holds after any number \<open>K\<close> of
  frames is still the generated one, so the bound holds for the whole life of the
  component.
\<close>

theorem positions_within_bounds:
  assumes "valid_draws rnd"
  shows "stored_positions (frames K (StarField rnd)) = Some (starPositions rnd) \<and>
         (\<forall>v\<in>set (starPositions rnd). - 1000 \<le> v \<and> v \<le> 1000)"
proof -
  have "- 1000 \<le> v \<and> v \<le> 1000" if "v \<in> set (starPositions rnd)" for v
  proof -
    from that obtain j where j: "j < 30000" and v: "v = starPositions rnd ! j"
      by (auto simp: in_set_conv_nth starPositions_length)
    have "0 \<le> rnd j" "rnd j < 1" using assms by (simp_all add: valid_draws_def)
    then show ?thesis
      using stored_bounds [of "rnd j"] by (simp add: v starPositions_nth [OF j])
  qed
  then show ?thesis by (simp add: stored_positions_frames)
qed

theorem positions_within_bounds_witness:
  "valid_draws (const_draws 0) \<and>
   stored_positions (frames 3 (StarField (const_draws 0))) = Some (starPositions (const_draws 0)) \<and>
   - 1000 \<le> starPositions (const_draws 0) ! 5 \<and> starPositions (const_draws 0) ! 5 \<le> 1000"
proof -
  note b = positions_within_bounds [OF valid_draws_0, of 3]
  have "starPositions (const_draws 0) ! 5 \<in> set (starPositions (const_draws 0))"
    by (rule nth_mem) (simp add: starPositions_length)
  with b show ?thesis using valid_draws_0 by blast
qed

text \<open>
  C3. The loop run for \<open>n\<close> stars fills exactly \<open>n\<close> triples. In the source the count
  is 10000: the array holds 30000 numbers, and the count the buffer attribute
  declares is the length of the array divided by 3, which is 10000.
\<close>

theorem point_count:
  "length (generate n rnd) = n * 3 \<and>
   length (starPositions rnd) = 10000 * 3 \<and>
   count (attributes_position (Stars rnd)) = 10000 \<and>
   count (attributes_position (Stars rnd)) = of_nat (length (starPositions rnd)) / 3"
  by (simp add: generate_length starPositions_length Stars_def count_default)

theorem point_count_witness:
  "length (generate 2 (const_draws 0)) = 6 \<and>
   length (starPositions (const_draws 0)) = 30000 \<and>
   count (attributes_position (Stars (const_draws 0))) = 10000"
  using point_count [of 2 "const_draws 0"] by simp

text \<open>
  C4, as the code has it. From the orientation \<open>(0, 0)\<close> of a new points object,
  \<open>K\<close> frames leave the angle about the vertical axis at the value of \<open>K\<close> successive
  binary64 additions of the literal \<^verbatim>\<open>0.0002\<close>, and the angle about the horizontal
  axis at that of \<open>K\<close> additions of \<^verbatim>\<open>0.0001\<close>. Neither is reduced modulo a full
  turn, and neither is the exact product: for \<open>K\<close> up to \<open>2 ^ 53\<close> the angle differs
  from \<open>K * 0.0002\<close> (from \<open>K * 0.0001\<close>) by at most
  \<open>(K + 1)\<^sup>2 * 0.0002 / 2 ^ 53\<close> (\<open>(K + 1)\<^sup>2 * 0.0001 / 2 ^ 53\<close>). After 60 frames
  this puts the angles within \<open>10 ^ - 15\<close> of 0.012 and 0.006, which is the witness.
\<close>

theorem orientation_after_frames:
  assumes "K \<le> 2 ^ 53"
  shows "orientation (frames K (StarField rnd)) =
           Some (drift (lit (2 / 10000)) K 0, drift (lit (1 / 10000)) K 0) \<and>
         \<bar>drift (lit (2 / 10000)) K 0 - of_nat K * (2 / 10000)\<bar>
           \<le> (of_nat K + 1) * (of_nat K + 1) * (2 / 10000) / 2 ^ 53 \<and>
         \<bar>drift (lit (1 / 10000)) K 0 - of_nat K * (1 / 10000)\<bar>
           \<le> (of_nat K + 1) * (of_nat K + 1) * (1 / 10000) / 2 ^ 53"
  using drift_literal_error [OF lit_normal(1) assms] drift_literal_error [OF lit_normal(2) assms]
  by (simp only: orientation_frames simp_thms)

theorem orientation_after_frames_witness:
  "(60::nat) \<le> 2 ^ 53 \<and>
   orientation (frames 60 (StarField (const_draws 0))) =
     Some (drift (lit (2 / 10000)) 60 0, drift (lit (1 / 10000)) 60 0) \<and>
   \<bar>drift (lit (2 / 10000)) 60 0 - 12 / 1000\<bar> < 1 / 10 ^ 15 \<and>
   \<bar>drift (lit (1 / 10000)) 60 0 - 6 / 1000\<bar> < 1 / 10 ^ 15"
proof -
  have k: "(60::nat) \<le> 2 ^ 53" by simp
  note b = orientation_after_frames [OF k, of "const_draws 0"]
  from b have "\<bar>drift (lit (2 / 10000)) 60 0 - 60 * (2 / 10000)\<bar> \<le> 61 * 61 * (2 / 10000) / 2 ^ 53"
    by simp
  then have y: "\<bar>drift (lit (2 / 10000)) 60 0 - 12 / 1000\<bar> < 1 / 10 ^ 15" by simp
  from b have "\<bar>drift (lit (1 / 10000)) 60 0 - 60 * (1 / 10000)\<bar> \<le> 61 * 61 * (1 / 10000) / 2 ^ 53"
    by simp
  then have x: "\<bar>drift (lit (1 / 10000)) 60 0 - 6 / 1000\<bar> < 1 / 10 ^ 15" by simp
  from b k x y show ?thesis by blast
qed

text \<open>
  C4 as stated fails at the seventh frame: the angle about the vertical axis is
  then neither the rational \<open>7 * 0.0002\<close>, nor the binary64 product
  \<^verbatim>\<open>7 * 0.0002\<close>, nor the number nearest to 0.0014. The difference from
  \<open>7 * 0.0002\<close> lies strictly between 0 and 1, so the two are not equal modulo a
  full turn either.
\<close>

theorem drift_not_exact_counterexample:
  "orientation (frames 7 (StarField (const_draws 0))) =
     Some (807045053224793 / 576460752303423488, 807045053224793 / 1152921504606846976) \<and>
   807045053224793 / 576460752303423488 - 7 * (2 / 10000) = (73 / 360287970189639680000 :: rat) \<and>
   807045053224793 / 576460752303423488 \<noteq> num_mul 7 (lit (2 / 10000)) \<and>
   807045053224793 / 576460752303423488 \<noteq> lit (7 * (2 / 10000))"
proof -
  have "orientation (frames 7 (StarField (const_draws 0))) =
      Some (drift (lit (2 / 10000)) 7 0, drift (lit (1 / 10000)) 7 0)"
    by (rule orientation_frames)
  then have a: "orientation (frames 7 (StarField (const_draws 0))) =
      Some (807045053224793 / 576460752303423488, 807045053224793 / 1152921504606846976)"
    by (simp only: drift_y_7 drift_x_7)
  have b: "807045053224793 / 576460752303423488 - 7 * (2 / 10000) =
      (73 / 360287970189639680000 :: rat)"
    by simp
  have c: "807045053224793 / 576460752303423488 \<noteq> num_mul 7 (lit (2 / 10000))"
    unfolding product_y_7 by simp
  have d: "807045053224793 / 576460752303423488 \<noteq> lit (7 * (2 / 10000))"
    unfolding literal_y_7 by simp
  from a b c d show ?thesis by (intro conjI)
qed

text \<open>
  C5. An invocation of the frame callback, and any run of \<open>K\<close> invocations, returns
  a scene that differs from the one it started from in the two angles
  \<^verbatim>\<open>rotation.x\<close> and \<^verbatim>\<open>rotation.y\<close> at most: the stored coordinates and the
  camera (position and field of view) are the ones it was given.
\<close>

theorem frame_callback_changes_rotation_only:
  "(\<exists>s'. useFrame_callback s = Inr s' \<and> only_rotation_differs s s') \<and>
   (\<exists>s'. frames K s = Inr s' \<and> only_rotation_differs s s')"
proof -
  have "\<exists>s'. frames k s = Inr s' \<and> only_rotation_differs s s'" for k
    using only_rotation_differs_turned [of s k] by (simp add: frames_any)
  from this [of "Suc 0"] this [of K] show ?thesis by (simp only: frames_one simp_thms)
qed

theorem frame_callback_changes_rotation_only_witness:
  "\<exists>s'. frames 2 (StarField (const_draws 0)) = Inr s' \<and>
     camera s' = \<lparr>position = [0, 0, 5], fov = 75\<rparr> \<and>
     stored_positions (Inr s') = Some (starPositions (const_draws 0))"
proof -
  obtain s' where s': "frames 2 (StarField (const_draws 0)) = Inr s'"
    and d: "only_rotation_differs (StarField (const_draws 0)) s'"
    using frame_callback_changes_rotation_only [of "StarField (const_draws 0)" 2] by blast
  from d have "camera s' = \<lparr>position = [0, 0, 5], fov = 75\<rparr>"
    by (simp add: only_rotation_differs_def StarField_def)
  moreover have "stored_positions (Inr s') = Some (starPositions (const_draws 0))"
    using stored_positions_frames [of 2 "const_draws 0"] by (simp only: s')
  ultimately show ?thesis using s' by blast
qed



text \<open>
  C8, as the code has it. For a draw \<open>u\<close> in \<open>[0, 1)\<close> the binary64 value of
  \<^verbatim>\<open>(u - 0.5) * 2000\<close> lies in the half-open interval \<open>[-1000, 1000)\<close>; the lower
  endpoint is reached at the draw 0 (the witness). The component stored in the
  array is that value converted to binary32, and it lies in the closed interval
  \<open>[-1000, 1000]\<close>.
\<close>

theorem component_range:
  assumes "valid_draws rnd" "j < 30000"
  shows "starPositions rnd ! j = fround (axis_value (rnd j)) \<and>
         - 1000 \<le> axis_value (rnd j) \<and> axis_value (rnd j) < 1000 \<and>
         - 1000 \<le> starPositions rnd ! j \<and> starPositions rnd ! j \<le> 1000"
proof -
  have u: "0 \<le> rnd j" "rnd j < 1" "fl64 (rnd j) = rnd j"
    using assms(1) by (simp_all add: valid_draws_def)
  show ?thesis
    using axis_value_bounds(1) [OF u(1,2)] axis_value_less [OF u(3,2)] stored_bounds [OF u(1,2)]
    by (simp add: starPositions_nth [OF assms(2)])
qed

theorem component_range_witness:
  "valid_draws (const_draws 0) \<and> (7::nat) < 30000 \<and>
   axis_value (const_draws 0 7) = - 1000 \<and> starPositions (const_draws 0) ! 7 = - 1000"
proof -
  have j: "(7::nat) < 30000" by simp
  note b = component_range [OF valid_draws_0 j]
  have a: "axis_value (const_draws 0 7) = - 1000" by (simp add: const_draws_def axis_value_0)
  with b have "starPositions (const_draws 0) ! 7 = - 1000" by simp
  with a j valid_draws_0 show ?thesis by blast
qed

text \<open>
  C8 as stated fails for the stored components: the draw \<open>1 - 2 ^ - 27\<close> is a
  number below 1, its binary64 axis value \<open>1000 - 125 / 2 ^ 23\<close> is below 1000, and
  the array stores it as 1000 exactly, the nearest binary32 value.
\<close>

theorem upper_endpoint_counterexample:
  "valid_draws (const_draws (134217727 / 134217728)) \<and>
   starPositions (const_draws (134217727 / 134217728)) ! 0 = 1000"
proof -
  have "valid_draws (const_draws (134217727 / 134217728))"
    by (rule valid_const_draws) (simp_all add: fl64_near_one)
  moreover have "starPositions (const_draws (134217727 / 134217728)) ! 0 = 1000"
    by (simp add: starPositions_nth const_draws_def stored_near_one)
  ultimately show ?thesis ..
qed

text \<open>
  C9. The frame callback never throws, whatever the scene; when the reference
  \<^verbatim>\<open>starsRef.current\<close> is absent, it returns the scene unchanged.
\<close>

theorem useFrame_callback_total:
  "\<not> isl (useFrame_callback s) \<and>
   (starsRef_current s = None \<longrightarrow> useFrame_callback s = Inr s)"
proof (cases "starsRef_current s")
  case None
  then show ?thesis by (simp add: useFrame_callback_detached)
next
  case (Some obj)
  then show ?thesis by (simp add: useFrame_callback_attached)
qed

theorem useFrame_callback_total_witness:
  "starsRef_current (detach (StarField (const_draws 0))) = None \<and>
   useFrame_callback (detach (StarField (const_draws 0))) = Inr (detach (StarField (const_draws 0)))"
  using useFrame_callback_total [of "detach (StarField (const_draws 0))"]
  by (simp add: detach_def)

text \<open>
  C10. The orientation after \<open>K\<close> frames is the same for any two sequences of
  draws: it does not depend on the generated positions. The witness pairs two runs
  whose position arrays differ.
\<close>

theorem orientation_independent_of_draws:
  "orientation (frames K (StarField rnd)) = orientation (frames K (StarField rnd'))"
  by (simp only: orientation_frames)

theorem orientation_independent_of_draws_witness:
  "starPositions (const_draws 0) \<noteq> starPositions (const_draws (1 / 2)) \<and>
   orientation (frames 5 (StarField (const_draws 0))) =
     orientation (frames 5 (StarField (const_draws (1 / 2))))"
proof -
  have "starPositions (const_draws 0) ! 0 = - 1000"
    by (simp add: starPositions_nth const_draws_def axis_value_0)
  moreover have "starPositions (const_draws (1 / 2)) ! 0 = 0"
    by (simp add: starPositions_nth const_draws_def axis_value_half fround_def)
  ultimately have "starPositions (const_draws 0) \<noteq> starPositions (const_draws (1 / 2))"
    by (metis neg_equal_0_iff_equal zero_neq_numeral)
  then show ?thesis
    using orientation_independent_of_draws [of 5 "const_draws 0" "const_draws (1 / 2)"] by simp
qed

end
